theory Spec2Isabelle
  imports Main "HOL-Library.Word"
begin

section \<open>The non-propagating cache (include/dd/non\_propagating\_cache.hpp)\<close>

text \<open>
  The class holds one member, \<^verbatim>\<open>std::optional<T> value_\<close>. Copy assignment compares
  \<^verbatim>\<open>this\<close> with the address of its argument, so objects live in a store: a
  function from addresses to objects. Every special member function takes the store, the
  address \<^verbatim>\<open>this\<close> and the address of \<^verbatim>\<open>other\<close>, and returns the store
  after the call.
\<close>

record 'a non_propagating_cache =
  value' :: "'a option"

type_synonym addr = nat

type_synonym 'a store = "addr \<Rightarrow> 'a non_propagating_cache"

text \<open>\<^verbatim>\<open>std::optional::reset\<close> on the member.\<close>

definition reset_value :: "'a non_propagating_cache \<Rightarrow> 'a non_propagating_cache" where
  "reset_value c = c\<lparr>value' := None\<rparr>"

text \<open>\<^verbatim>\<open>non_propagating_cache() = default\<close>: the member initialiser \<^verbatim>\<open>value_{}\<close>.\<close>

definition np_default_ctor :: "'a store \<Rightarrow> addr \<Rightarrow> 'a store" where
  "np_default_ctor h this = h(this := \<lparr>value' = None\<rparr>)"

text \<open>A store in which every address holds a default-constructed cache.\<close>

definition fresh_store :: "'a store" where
  "fresh_store = (\<lambda>a. \<lparr>value' = None\<rparr>)"

text \<open>Copy constructor: \<^verbatim>\<open>value_{std::nullopt}\<close>, the argument is not read.\<close>

definition np_copy_ctor :: "'a store \<Rightarrow> addr \<Rightarrow> addr \<Rightarrow> 'a store" where
  "np_copy_ctor h this other = h(this := \<lparr>value' = None\<rparr>)"

text \<open>Move constructor: \<^verbatim>\<open>value_{std::nullopt}\<close>, then \<^verbatim>\<open>other.value_.reset()\<close>.\<close>

definition np_move_ctor :: "'a store \<Rightarrow> addr \<Rightarrow> addr \<Rightarrow> 'a store" where
  "np_move_ctor h this other =
     (let h1 = h(this := \<lparr>value' = None\<rparr>)
      in h1(other := reset_value (h1 other)))"

text \<open>Copy assignment: \<^verbatim>\<open>if (this != std::addressof(other)) value_.reset();\<close>\<close>

definition np_copy_assign :: "'a store \<Rightarrow> addr \<Rightarrow> addr \<Rightarrow> 'a store" where
  "np_copy_assign h this other =
     (if this \<noteq> other then h(this := reset_value (h this)) else h)"

text \<open>Move assignment: \<^verbatim>\<open>value_.reset(); other.value_.reset();\<close>\<close>

definition np_move_assign :: "'a store \<Rightarrow> addr \<Rightarrow> addr \<Rightarrow> 'a store" where
  "np_move_assign h this other =
     (let h1 = h(this := reset_value (h this))
      in h1(other := reset_value (h1 other)))"

definition has_value :: "'a non_propagating_cache \<Rightarrow> bool" where
  "has_value c = (value' c \<noteq> None)"

text \<open>\<^verbatim>\<open>emplace\<close> overwrites whatever the cell held.\<close>

definition np_emplace :: "'a store \<Rightarrow> addr \<Rightarrow> 'a \<Rightarrow> 'a store" where
  "np_emplace h this v = h(this := (h this)\<lparr>value' := Some v\<rparr>)"


section \<open>Base sequences and the standard primitives used by the view\<close>

text \<open>
  A base range is its elements together with the range concepts its type satisfies; the
  concepts are all the view's compile-time branching looks at. An iterator is a position:
  the number of elements before it, so \<^verbatim>\<open>std::ranges::begin\<close> is 0 and
  \<^verbatim>\<open>std::ranges::end\<close> is the length.

  A base that is not a forward range is single-pass. It is modelled as the simplest
  such view, a subrange of stream iterators
  (\<^verbatim>\<open>std::ranges::subrange(std::istream_iterator<T>(in), std::default_sentinel)\<close>):
  \<open>elems\<close> are the elements the stream delivers, the stored begin iterator has read the
  first of them, and every iterator over the base reads from the one shared stream.
\<close>

record 'a range =
  elems :: "'a list"
  forward_range :: bool
  random_access_range :: bool
  sized_range :: bool

type_synonym iterator = nat

text \<open>\<^verbatim>\<open>std::ranges::range_difference_t<R>\<close>: a signed 64-bit integer, compared as signed.\<close>

type_synonym difference_type = "64 word"

definition ranges_begin :: "'a range \<Rightarrow> iterator" where
  "ranges_begin r = 0"

definition ranges_end :: "'a range \<Rightarrow> iterator" where
  "ranges_end r = length (elems r)"

text \<open>\<^verbatim>\<open>std::ranges::ssize\<close>: the element count converted to the difference type.\<close>

definition ranges_ssize :: "'a range \<Rightarrow> difference_type" where
  "ranges_ssize r = word_of_nat (length (elems r))"

text \<open>
  \<^verbatim>\<open>std::ranges::next(i, n, bound)\<close> for \<open>n \<ge> 0\<close>, as the standard library defines
  it: while \<open>n > 0\<close> and \<open>i \<noteq> bound\<close>, increment \<open>i\<close> and decrement \<open>n\<close>. The loop
  counter is the second argument of \<open>ranges_advance\<close>. With \<open>n \<le> 0\<close> the loop body
  never runs (a negative \<open>n\<close> is outside the precondition of the call made by the view,
  whose constructor asserts that both indices are non-negative).
\<close>

fun ranges_advance :: "iterator \<Rightarrow> nat \<Rightarrow> iterator \<Rightarrow> iterator" where
  "ranges_advance i 0 bound = i"
| "ranges_advance i (Suc n) bound =
     (if i = bound then i else ranges_advance (Suc i) n bound)"

definition ranges_next :: "iterator \<Rightarrow> difference_type \<Rightarrow> iterator \<Rightarrow> iterator" where
  "ranges_next i n bound = ranges_advance i (nat (sint n)) bound"

text \<open>
  The stream behind a single-pass base is shared by the base, its copies and all their
  iterators, so it is a state of its own, outside the view: the number of elements read
  from it so far. After the base has been built it is 1 (or 0 for an empty stream).
  A forward base has no such state.
\<close>

type_synonym source = nat

text \<open>
  \<^verbatim>\<open>++i\<close> on a stream iterator: the next element is read from the stream and the
  iterator denotes it; when the stream has no more elements the read fails and the
  iterator becomes the end iterator. The result does not depend on where \<open>i\<close> was.
\<close>

definition stream_increment :: "'a range \<Rightarrow> iterator \<Rightarrow> source \<Rightarrow> iterator \<times> source" where
  "stream_increment r i src =
     (if src < length (elems r) then (src, Suc src) else (length (elems r), src))"

text \<open>The loop of \<^verbatim>\<open>std::ranges::next\<close> over stream iterators.\<close>

fun input_advance ::
  "'a range \<Rightarrow> iterator \<Rightarrow> nat \<Rightarrow> iterator \<Rightarrow> source \<Rightarrow> iterator \<times> source" where
  "input_advance r i 0 bound src = (i, src)"
| "input_advance r i (Suc n) bound src =
     (if i = bound then (i, src)
      else (case stream_increment r i src of
              (i', src') \<Rightarrow> input_advance r i' n bound src'))"

text \<open>
  \<^verbatim>\<open>std::ranges::next(i, n, bound)\<close> on the iterators of a base: on a forward base
  the loop above, which leaves no trace; on a single-pass base the loop that reads from
  the stream.
\<close>

definition ranges_next_of ::
  "'a range \<Rightarrow> iterator \<Rightarrow> difference_type \<Rightarrow> iterator \<Rightarrow> source \<Rightarrow> iterator \<times> source" where
  "ranges_next_of r i n bound src =
     (if forward_range r then (ranges_next i n bound, src)
      else input_advance r i (nat (sint n)) bound src)"

text \<open>\<^verbatim>\<open>std::clamp(v, lo, hi)\<close> and \<^verbatim>\<open>std::max(a, b)\<close> on the signed difference type.\<close>

definition std_clamp ::
  "difference_type \<Rightarrow> difference_type \<Rightarrow> difference_type \<Rightarrow> difference_type" where
  "std_clamp v lo hi = (if v <s lo then lo else if hi <s v then hi else v)"

definition std_max :: "difference_type \<Rightarrow> difference_type \<Rightarrow> difference_type" where
  "std_max a b = (if a <s b then b else a)"


section \<open>The slice view (include/dd/slice\_view.hpp)\<close>

text \<open>
  \<^verbatim>\<open>use_cached_iterators_\<close>, a compile-time constant of the instantiation, and the
  concept \<^verbatim>\<open>cacheable_range\<close> of include/dd/cached\_iterator.hpp.
\<close>

definition use_cached_iterators' :: "'a range \<Rightarrow> bool" where
  "use_cached_iterators' r =
     (forward_range r \<and> \<not> (random_access_range r \<and> sized_range r))"

definition cacheable_range :: "'a range \<Rightarrow> bool" where
  "cacheable_range r =
     (forward_range r \<and> \<not> (random_access_range r \<and> sized_range r))"

text \<open>
  A cache member of the view has type
  \<^verbatim>\<open>maybe_present_t<use_cached_iterators_, cached_iterator>\<close>, where
  \<^verbatim>\<open>cached_iterator\<close> is \<^verbatim>\<open>std::optional<std::ranges::iterator_t<R>>\<close>: it is
  either an optional iterator or a value of an empty type.
  \<^verbatim>\<open>maybe_present_t\<close> is \<^verbatim>\<open>std::conditional_t\<close>; here it selects between the
  default-initialised values of the two types.
\<close>

datatype cache_field = Cached_iterator "iterator option" | Empty_type

definition maybe_present_t :: "bool \<Rightarrow> 't \<Rightarrow> 't \<Rightarrow> 't" where
  "maybe_present_t Present T E = (if Present then T else E)"

record 'a slice_view =
  base' :: "'a range"
  start_index' :: difference_type
  end_index' :: difference_type
  begin' :: cache_field
  end' :: cache_field

datatype error = Assertion_failed

text \<open>
  The three-argument constructor, with its assertions active: a failed
  \<^verbatim>\<open>assert\<close> aborts, which is the \<open>Inl\<close> result.
\<close>

definition slice_view_ctor ::
  "'a range \<Rightarrow> difference_type \<Rightarrow> difference_type \<Rightarrow> error + 'a slice_view" where
  "slice_view_ctor base start end_idx =
     (if \<not> (0 \<le>s start) then Inl Assertion_failed
      else if \<not> (0 \<le>s end_idx) then Inl Assertion_failed
      else if \<not> (start \<le>s end_idx) then Inl Assertion_failed
      else Inr \<lparr>base' = base, start_index' = start, end_index' = end_idx,
                begin' = maybe_present_t (use_cached_iterators' base)
                           (Cached_iterator None) Empty_type,
                end' = maybe_present_t (use_cached_iterators' base)
                         (Cached_iterator None) Empty_type\<rparr>)"

text \<open>
  The defaulted default constructor: the member initialisers \<^verbatim>\<open>base_{}\<close>,
  \<^verbatim>\<open>start_index_{0}\<close>, \<^verbatim>\<open>end_index_{0}\<close>; the argument is the
  value-initialised base.
\<close>

definition slice_view_default_ctor :: "'a range \<Rightarrow> 'a slice_view" where
  "slice_view_default_ctor base =
     \<lparr>base' = base, start_index' = 0, end_index' = 0,
      begin' = maybe_present_t (use_cached_iterators' base)
                 (Cached_iterator None) Empty_type,
      end' = maybe_present_t (use_cached_iterators' base)
               (Cached_iterator None) Empty_type\<rparr>"

text \<open>\<^verbatim>\<open>iter.emplace(next_iter)\<close> on a cache member.\<close>

fun emplace :: "cache_field \<Rightarrow> iterator \<Rightarrow> cache_field" where
  "emplace (Cached_iterator c) v = Cached_iterator (Some v)"
| "emplace Empty_type v = Empty_type"

text \<open>
  The private member function \<^verbatim>\<open>next\<close>. It takes the stream state and returns the
  iterator, the cache member it was given by reference as the call leaves it, and the
  stream state after the call.
\<close>

definition next_sv ::
  "'a slice_view \<Rightarrow> cache_field \<Rightarrow> difference_type \<Rightarrow> source \<Rightarrow>
   iterator \<times> cache_field \<times> source" where
  "next_sv self iter n src =
     (if use_cached_iterators' (base' self) then
        (case iter of
           Cached_iterator (Some v) \<Rightarrow> (v, iter, src)
         | _ \<Rightarrow>
           (case ranges_next_of (base' self)
                   (ranges_begin (base' self)) n (ranges_end (base' self)) src of
              (next_iter, src') \<Rightarrow> (next_iter, emplace iter next_iter, src')))
      else
        (case ranges_next_of (base' self)
                (ranges_begin (base' self)) n (ranges_end (base' self)) src of
           (next_iter, src') \<Rightarrow> (next_iter, iter, src')))"

text \<open>
  \<^verbatim>\<open>begin\<close> and \<^verbatim>\<open>end\<close>, on the view and the stream state: the result, and the
  view and the stream state after the call.
\<close>

fun begin_sv :: "'a slice_view \<times> source \<Rightarrow> iterator \<times> 'a slice_view \<times> source" where
  "begin_sv (self, src) =
     (case next_sv self (begin' self) (start_index' self) src of
        (it, c, src') \<Rightarrow> (it, self\<lparr>begin' := c\<rparr>, src'))"

fun end_sv :: "'a slice_view \<times> source \<Rightarrow> iterator \<times> 'a slice_view \<times> source" where
  "end_sv (self, src) =
     (case next_sv self (end' self) (end_index' self) src of
        (it, c, src') \<Rightarrow> (it, self\<lparr>end' := c\<rparr>, src'))"

text \<open>
  \<^verbatim>\<open>size\<close>, which exists only for a sized base (\<open>None\<close> otherwise). The final
  \<^verbatim>\<open>static_cast\<close> to the unsigned type keeps the bits; \<open>uint\<close> reads the result
  as the unsigned value.
\<close>

definition size_sv :: "'a slice_view \<Rightarrow> difference_type option" where
  "size_sv self =
     (if sized_range (base' self) then
        (let zero = 0;
             base_size = ranges_ssize (base' self);
             slice_size = std_max zero
               (std_clamp (end_index' self) zero base_size -
                std_clamp (start_index' self) zero base_size)
         in Some slice_size)
      else None)"

text \<open>
  The view declares no copy or move constructor, so both are implicit and memberwise.
  The cache members are \<^verbatim>\<open>std::optional\<close> objects (or empty objects): copying one
  copies the contained iterator, and moving one move-constructs the contained iterator
  and leaves the source engaged. An iterator is a position, and moving it copies it.
  Both functions return the source after the call and the new object. What a move
  leaves in the source's base is up to the base type, so it is a parameter. Neither
  constructor touches the stream behind a single-pass base.
\<close>

definition slice_view_copy_ctor :: "'a slice_view \<Rightarrow> 'a slice_view \<times> 'a slice_view" where
  "slice_view_copy_ctor other =
     (other,
      \<lparr>base' = base' other, start_index' = start_index' other,
       end_index' = end_index' other, begin' = begin' other, end' = end' other\<rparr>)"

definition slice_view_move_ctor ::
  "'a range \<Rightarrow> 'a slice_view \<Rightarrow> 'a slice_view \<times> 'a slice_view" where
  "slice_view_move_ctor moved_from_base other =
     (other\<lparr>base' := moved_from_base\<rparr>,
      \<lparr>base' = base' other, start_index' = start_index' other,
       end_index' = end_index' other, begin' = begin' other, end' = end' other\<rparr>)"

text \<open>The elements between two positions of the base: what iterating the view visits.\<close>

definition elements_between :: "'a range \<Rightarrow> iterator \<Rightarrow> iterator \<Rightarrow> 'a list" where
  "elements_between r i j = take (j - i) (drop i (elems r))"

text \<open>
  The views a program can hold: constructed, queried, copied, or the target of a move.
  (The source of a move is left in a state that depends on the base type.)
\<close>

inductive reachable :: "'a slice_view \<Rightarrow> bool" where
  constructed: "slice_view_ctor b s e = Inr sv \<Longrightarrow> reachable sv"
| default_constructed: "reachable (slice_view_default_ctor b)"
| after_begin: "reachable sv \<Longrightarrow> reachable (fst (snd (begin_sv (sv, src))))"
| after_end: "reachable sv \<Longrightarrow> reachable (fst (snd (end_sv (sv, src))))"
| copy_source: "reachable sv \<Longrightarrow> reachable (fst (slice_view_copy_ctor sv))"
| copy_target: "reachable sv \<Longrightarrow> reachable (snd (slice_view_copy_ctor sv))"
| move_target: "reachable sv \<Longrightarrow> reachable (snd (slice_view_move_ctor mb sv))"


section \<open>Consistency of the cache members, and sequences of queries\<close>

text \<open>
  A cache member is consistent with its view when it has the type the instantiation
  selects and, if it holds an iterator, holds the one \<^verbatim>\<open>next\<close> computes for the
  member's index.
\<close>

definition cell_ok :: "'a range \<Rightarrow> difference_type \<Rightarrow> cache_field \<Rightarrow> bool" where
  "cell_ok r n c =
     (if use_cached_iterators' r
      then c = Cached_iterator None \<or>
           c = Cached_iterator (Some (ranges_next (ranges_begin r) n (ranges_end r)))
      else c = Empty_type)"

text \<open>
  The state of a view between calls: the constructor's precondition on the indices, and
  both cache members consistent.
\<close>

definition sv_inv :: "'a slice_view \<Rightarrow> bool" where
  "sv_inv sv =
     (0 \<le>s start_index' sv \<and> start_index' sv \<le>s end_index' sv \<and>
      cell_ok (base' sv) (start_index' sv) (begin' sv) \<and>
      cell_ok (base' sv) (end_index' sv) (end' sv))"

text \<open>
  A caller's sequence of \<^verbatim>\<open>begin\<close> and \<^verbatim>\<open>end\<close> calls on one view, and the view
  and stream state they leave behind.
\<close>

datatype query = Begin_query | End_query

fun after_query :: "query \<Rightarrow> 'a slice_view \<times> source \<Rightarrow> 'a slice_view \<times> source" where
  "after_query Begin_query st = snd (begin_sv st)"
| "after_query End_query st = snd (end_sv st)"

fun after_queries :: "query list \<Rightarrow> 'a slice_view \<times> source \<Rightarrow> 'a slice_view \<times> source" where
  "after_queries [] st = st"
| "after_queries (q # qs) st = after_queries qs (after_query q st)"

section \<open>Example views\<close>

text \<open>
  The forward-only list of examples/basic.cpp sliced at \<open>[2, 5)\<close> (a \<^verbatim>\<open>std::list\<close>
  is sized but not random-access), before and after both endpoint queries, the
  array of tests/test\_slice\_view.cpp sliced at \<open>[3, 10)\<close>, and a stream delivering
  10, 20, 30, 40, 50 sliced at \<open>[1, 3)\<close>.
\<close>

definition forward_list_example :: "nat range" where
  "forward_list_example =
     \<lparr>elems = [10, 20, 30, 40, 50], forward_range = True,
      random_access_range = False, sized_range = True\<rparr>"

definition array_example :: "nat range" where
  "array_example =
     \<lparr>elems = [10, 11, 12, 13, 14], forward_range = True,
      random_access_range = True, sized_range = True\<rparr>"

definition fresh_list_slice :: "nat slice_view" where
  "fresh_list_slice =
     \<lparr>base' = forward_list_example, start_index' = 2, end_index' = 5,
      begin' = Cached_iterator None, end' = Cached_iterator None\<rparr>"

definition queried_list_slice :: "nat slice_view" where
  "queried_list_slice =
     \<lparr>base' = forward_list_example, start_index' = 2, end_index' = 5,
      begin' = Cached_iterator (Some 2), end' = Cached_iterator (Some 5)\<rparr>"

definition clamped_array_slice :: "nat slice_view" where
  "clamped_array_slice =
     \<lparr>base' = array_example, start_index' = 3, end_index' = 10,
      begin' = Empty_type, end' = Empty_type\<rparr>"

definition stream_example :: "nat range" where
  "stream_example =
     \<lparr>elems = [10, 20, 30, 40, 50], forward_range = False,
      random_access_range = False, sized_range = False\<rparr>"

definition stream_slice :: "nat slice_view" where
  "stream_slice =
     \<lparr>base' = stream_example, start_index' = 1, end_index' = 3,
      begin' = Empty_type, end' = Empty_type\<rparr>"


section \<open>Properties of the non-propagating cache\<close>

lemma has_value_reset [simp]: "\<not> has_value (reset_value c)"
  by (simp add: has_value_def reset_value_def)

text \<open>
  Claim C5, as stated: copy construction and copy assignment always leave the destination
  empty and never change the source. Copy assignment is guarded by an address comparison,
  so assigning a populated cell to itself leaves the destination populated: the
  destination is not always empty.
\<close>

theorem np_copy_assign_self_keeps_value:
  "has_value (np_copy_assign (np_emplace fresh_store 0 (7::nat)) 0 0 0)"
  by (simp add: np_copy_assign_def np_emplace_def has_value_def)

text \<open>
  Claim C5, amended: copy-constructing a cell from another object, or copy-assigning to a
  cell from a distinct object, yields an empty destination and leaves the source object as
  it was; copy assignment never changes its source, whether or not the two objects are
  distinct.
\<close>

theorem np_copy_resets_destination_only:
  "(this \<noteq> other \<longrightarrow>
     \<not> has_value (np_copy_ctor h this other this) \<and>
     np_copy_ctor h this other other = h other \<and>
     \<not> has_value (np_copy_assign h this other this)) \<and>
   np_copy_assign h this other other = h other"
  by (simp add: np_copy_ctor_def np_copy_assign_def has_value_def reset_value_def)

theorem np_copy_resets_destination_only_witness:
  "(1::addr) \<noteq> 0 \<and>
   has_value (np_emplace fresh_store 0 (7::nat) 0) \<and>
   \<not> has_value (np_copy_ctor (np_emplace fresh_store 0 (7::nat)) 1 0 1) \<and>
   value' (np_copy_ctor (np_emplace fresh_store 0 (7::nat)) 1 0 0) = Some 7 \<and>
   \<not> has_value (np_copy_assign (np_emplace (np_emplace fresh_store 0 (7::nat)) 1 8) 1 0 1) \<and>
   value' (np_copy_assign (np_emplace (np_emplace fresh_store 0 (7::nat)) 1 8) 1 0 0) = Some 7 \<and>
   value' (np_copy_assign (np_emplace fresh_store 0 (7::nat)) 0 0 0) = Some 7"
  using np_copy_resets_destination_only
          [of 1 0 "np_emplace fresh_store 0 (7::nat)"]
        np_copy_resets_destination_only
          [of 1 0 "np_emplace (np_emplace fresh_store 0 (7::nat)) 1 8"]
        np_copy_resets_destination_only
          [of 0 0 "np_emplace fresh_store 0 (7::nat)"]
  by (simp add: np_emplace_def fresh_store_def has_value_def)

text \<open>
  Claim C6: move construction and move assignment leave the destination empty and the
  moved-from source empty, whatever the two cells held and whether or not they are the
  same object.
\<close>

theorem np_move_resets_both:
  "\<not> has_value (np_move_ctor h this other this) \<and>
   \<not> has_value (np_move_ctor h this other other) \<and>
   \<not> has_value (np_move_assign h this other this) \<and>
   \<not> has_value (np_move_assign h this other other)"
  by (simp add: np_move_ctor_def np_move_assign_def has_value_def reset_value_def Let_def)

text \<open>
  Claim C10: copy-assigning a cell to itself is a no-op, so a held value stays, unchanged;
  copy-assigning from a distinct object empties the destination; move-assigning a cell to
  itself empties it.
\<close>

theorem np_self_assignment:
  "np_copy_assign h a a = h \<and>
   (a \<noteq> b \<longrightarrow> \<not> has_value (np_copy_assign h a b a)) \<and>
   \<not> has_value (np_move_assign h a a a)"
  by (simp add: np_copy_assign_def np_move_assign_def has_value_def reset_value_def)

theorem np_self_assignment_witness:
  "value' (np_copy_assign (np_emplace fresh_store 0 (7::nat)) 0 0 0) = Some 7 \<and>
   (0::addr) \<noteq> 1 \<and>
   has_value (np_emplace (np_emplace fresh_store 0 (7::nat)) 1 8 0) \<and>
   \<not> has_value (np_copy_assign (np_emplace (np_emplace fresh_store 0 (7::nat)) 1 8) 0 1 0) \<and>
   \<not> has_value (np_move_assign (np_emplace fresh_store 0 (7::nat)) 0 0 0)"
  using np_self_assignment [of "np_emplace fresh_store 0 (7::nat)" 0 0]
        np_self_assignment [of "np_emplace (np_emplace fresh_store 0 (7::nat)) 1 8" 0 1]
  by (simp add: np_emplace_def fresh_store_def has_value_def)


section \<open>Properties of the standard primitives\<close>

lemma ranges_advance_min:
  "i \<le> bound \<Longrightarrow> ranges_advance i n bound = min (i + n) bound"
  by (induction n arbitrary: i) auto

lemma ranges_next_from_begin:
  "ranges_next (ranges_begin r) n (ranges_end r) = min (nat (sint n)) (length (elems r))"
  by (simp add: ranges_next_def ranges_begin_def ranges_end_def ranges_advance_min)

lemma sint_ranges_ssize:
  assumes "length (elems r) < 2 ^ 63"
  shows "sint (ranges_ssize r) = int (length (elems r))"
proof -
  have "int (length (elems r)) < 2 ^ 63" using assms by (simp flip: of_nat_less_iff)
  then show ?thesis
    unfolding ranges_ssize_def
    by (simp add: signed_of_nat signed_take_bit_int_eq_self)
qed

lemma sint_std_clamp:
  assumes "0 \<le> sint hi"
  shows "sint (std_clamp v 0 hi) = max 0 (min (sint v) (sint hi))"
  using assms by (auto simp: std_clamp_def word_sless_alt)

lemma sint_std_max: "sint (std_max a b) = max (sint a) (sint b)"
  by (auto simp: std_max_def word_sless_alt)

lemma sint_diff_small:
  fixes a b :: "64 word"
  assumes "0 \<le> sint a" "0 \<le> sint b"
  shows "sint (a - b) = sint a - sint b"
proof -
  have "sint a < 2 ^ 63" "sint b < 2 ^ 63"
    using sint_lt [of a] sint_lt [of b] by simp_all
  with assms have "- (2 ^ 63) \<le> sint a - sint b" "sint a - sint b < 2 ^ 63"
    by simp_all
  then show ?thesis
    by (simp add: sint_word_ariths signed_take_bit_int_eq_self)
qed

section \<open>Properties of the slice view\<close>

subsection \<open>The count query\<close>

lemma size_sv_value:
  assumes sized: "sized_range (base' sv)"
    and len: "length (elems (base' sv)) < 2 ^ 63"
    and lo: "0 \<le>s start_index' sv"
    and ord: "start_index' sv \<le>s end_index' sv"
  shows "\<exists>w. size_sv sv = Some w \<and>
     uint w = max 0 (min (sint (end_index' sv)) (int (length (elems (base' sv)))) -
                     min (sint (start_index' sv)) (int (length (elems (base' sv)))))"
proof -
  let ?L = "int (length (elems (base' sv)))"
  let ?ce = "std_clamp (end_index' sv) 0 (ranges_ssize (base' sv))"
  let ?cs = "std_clamp (start_index' sv) 0 (ranges_ssize (base' sv))"
  have L: "sint (ranges_ssize (base' sv)) = ?L" by (rule sint_ranges_ssize [OF len])
  have s0: "0 \<le> sint (start_index' sv)" using lo by (simp add: word_sle_eq)
  have se: "sint (start_index' sv) \<le> sint (end_index' sv)" using ord by (simp add: word_sle_eq)
  have ce: "sint ?ce = min (sint (end_index' sv)) ?L"
    using s0 se by (simp add: sint_std_clamp L)
  have cs: "sint ?cs = min (sint (start_index' sv)) ?L"
    using s0 by (simp add: sint_std_clamp L)
  have d: "sint (?ce - ?cs) = min (sint (end_index' sv)) ?L - min (sint (start_index' sv)) ?L"
    using s0 se by (simp add: sint_diff_small ce cs)
  let ?w = "std_max 0 (?ce - ?cs)"
  have w: "sint ?w = max 0 (min (sint (end_index' sv)) ?L - min (sint (start_index' sv)) ?L)"
    by (simp add: sint_std_max d)
  have "0 \<le> sint ?w" by (simp add: w)
  moreover have "sint ?w < 2 ^ 64"
    using sint_lt [of ?w] by simp
  ultimately have "uint ?w = sint ?w"
    by (simp add: uint_sint take_bit_int_eq_self)
  with w sized show ?thesis
    by (simp add: size_sv_def Let_def)
qed

text \<open>
  Claim C3: a view constructed with \<open>0 \<le> start \<le> end\<close> over a sized base of length
  \<open>L\<close> (a length the signed difference type can hold) exists, and its \<^verbatim>\<open>size\<close>
  returns a value that, read as unsigned, is
  \<open>max 0 (min end L - min start L)\<close>. The result is the same whatever the two cache
  members hold, and \<^verbatim>\<open>size\<close> returns no changed view: it neither reads nor writes them.
\<close>

theorem size_sv_count:
  assumes "0 \<le>s s" and "s \<le>s e" and "sized_range b" and "length (elems b) < 2 ^ 63"
  shows "\<exists>sv w. slice_view_ctor b s e = Inr sv \<and> size_sv sv = Some w \<and>
           uint w = max 0 (min (sint e) (int (length (elems b))) -
                           min (sint s) (int (length (elems b)))) \<and>
           (\<forall>c1 c2. size_sv (sv\<lparr>begin' := c1, end' := c2\<rparr>) = size_sv sv)"
proof -
  from assms(1,2) obtain sv where sv: "slice_view_ctor b s e = Inr sv"
    and f: "base' sv = b" "start_index' sv = s" "end_index' sv = e"
    by (auto simp: slice_view_ctor_def word_sle_eq)
  from size_sv_value [of sv] assms f obtain w where w: "size_sv sv = Some w"
    "uint w = max 0 (min (sint e) (int (length (elems b))) -
                     min (sint s) (int (length (elems b))))"
    by auto
  have "\<forall>c1 c2. size_sv (sv\<lparr>begin' := c1, end' := c2\<rparr>) = size_sv sv"
    by (simp add: size_sv_def)
  with sv w show ?thesis by blast
qed

theorem size_sv_count_witness:
  "(0::difference_type) \<le>s 3 \<and> (3::difference_type) \<le>s 10 \<and>
   sized_range array_example \<and> length (elems array_example) < 2 ^ 63 \<and>
   (\<exists>sv w. slice_view_ctor array_example 3 10 = Inr sv \<and> size_sv sv = Some w \<and> uint w = 2)"
proof -
  have h: "(0::difference_type) \<le>s 3" "(3::difference_type) \<le>s 10"
    "sized_range array_example" "length (elems array_example) < 2 ^ 63"
    by (simp_all add: array_example_def word_sle_eq)
  from size_sv_count [OF h] obtain sv w where
    "slice_view_ctor array_example 3 10 = Inr sv" "size_sv sv = Some w"
    "uint w = max 0 (min (sint (10::difference_type)) (int (length (elems array_example))) -
                     min (sint (3::difference_type)) (int (length (elems array_example))))"
    by blast
  moreover have "elems array_example = [10, 11, 12, 13, 14]"
    by (simp add: array_example_def)
  ultimately have "slice_view_ctor array_example 3 10 = Inr sv \<and> size_sv sv = Some w \<and> uint w = 2"
    by simp
  with h show ?thesis by blast
qed

subsection \<open>The constructor\<close>

text \<open>
  Claim C9: with assertions active, construction fails an assertion exactly when
  \<open>start\<close> is negative, \<open>end\<close> is negative, or \<open>end < start\<close>; under
  \<open>0 \<le> start \<le> end\<close> no assertion fires and the view stores the base and both
  indices as given.
\<close>

theorem slice_view_ctor_precondition:
  "(slice_view_ctor b s e = Inl Assertion_failed \<longleftrightarrow> s <s 0 \<or> e <s 0 \<or> e <s s) \<and>
   (0 \<le>s s \<and> s \<le>s e \<longrightarrow>
      (\<exists>sv. slice_view_ctor b s e = Inr sv \<and>
            base' sv = b \<and> start_index' sv = s \<and> end_index' sv = e))"
  by (auto simp: slice_view_ctor_def word_sle_eq word_sless_alt)

theorem slice_view_ctor_precondition_witness:
  "(0::difference_type) \<le>s 3 \<and> (3::difference_type) \<le>s 10 \<and>
   (\<exists>sv. slice_view_ctor array_example 3 10 = Inr sv \<and> base' sv = array_example \<and>
         start_index' sv = 3 \<and> end_index' sv = 10) \<and>
   slice_view_ctor array_example (- 1) 5 = Inl Assertion_failed \<and>
   slice_view_ctor array_example 2 (- 1) = Inl Assertion_failed \<and>
   slice_view_ctor array_example 3 2 = Inl Assertion_failed"
  using slice_view_ctor_precondition [of array_example 3 10]
        slice_view_ctor_precondition [of array_example "- 1" 5]
        slice_view_ctor_precondition [of array_example 2 "- 1"]
        slice_view_ctor_precondition [of array_example 3 2]
  by (simp add: word_sle_eq word_sless_alt)

subsection \<open>The state of a view between calls\<close>

lemma ranges_next_of_forward:
  "forward_range r \<Longrightarrow> ranges_next_of r i n bound src = (ranges_next i n bound, src)"
  by (simp add: ranges_next_of_def)

lemma use_cached_forward: "use_cached_iterators' r \<Longrightarrow> forward_range r"
  by (simp add: use_cached_iterators'_def)

lemma next_sv_cell_ok:
  assumes "cell_ok (base' sv) n c"
  shows "cell_ok (base' sv) n (fst (snd (next_sv sv c n src)))"
  using assms
  by (auto simp: cell_ok_def next_sv_def ranges_next_of_forward use_cached_forward
           split: if_splits prod.splits)

lemma next_sv_forward:
  assumes "cell_ok (base' sv) n c" and "forward_range (base' sv)"
  shows "fst (next_sv sv c n src) =
           ranges_next (ranges_begin (base' sv)) n (ranges_end (base' sv))"
    and "snd (snd (next_sv sv c n src)) = src"
  using assms
  by (auto simp: cell_ok_def next_sv_def ranges_next_of_forward split: if_splits)

lemma begin_sv_fields [simp]:
  "base' (fst (snd (begin_sv (sv, src)))) = base' sv"
  "start_index' (fst (snd (begin_sv (sv, src)))) = start_index' sv"
  "end_index' (fst (snd (begin_sv (sv, src)))) = end_index' sv"
  "end' (fst (snd (begin_sv (sv, src)))) = end' sv"
  by (simp_all split: prod.split)

lemma begin_sv_next:
  "begin' (fst (snd (begin_sv (sv, src)))) =
     fst (snd (next_sv sv (begin' sv) (start_index' sv) src))"
  "fst (begin_sv (sv, src)) = fst (next_sv sv (begin' sv) (start_index' sv) src)"
  "snd (snd (begin_sv (sv, src))) = snd (snd (next_sv sv (begin' sv) (start_index' sv) src))"
  by (simp_all split: prod.split)

lemma end_sv_fields [simp]:
  "base' (fst (snd (end_sv (sv, src)))) = base' sv"
  "start_index' (fst (snd (end_sv (sv, src)))) = start_index' sv"
  "end_index' (fst (snd (end_sv (sv, src)))) = end_index' sv"
  "begin' (fst (snd (end_sv (sv, src)))) = begin' sv"
  by (simp_all split: prod.split)

lemma end_sv_next:
  "end' (fst (snd (end_sv (sv, src)))) =
     fst (snd (next_sv sv (end' sv) (end_index' sv) src))"
  "fst (end_sv (sv, src)) = fst (next_sv sv (end' sv) (end_index' sv) src)"
  "snd (snd (end_sv (sv, src))) = snd (snd (next_sv sv (end' sv) (end_index' sv) src))"
  by (simp_all split: prod.split)

lemma sv_inv_ctor: "slice_view_ctor b s e = Inr sv \<Longrightarrow> sv_inv sv"
  by (auto simp: slice_view_ctor_def sv_inv_def cell_ok_def maybe_present_t_def
           split: if_splits)

lemma sv_inv_default: "sv_inv (slice_view_default_ctor b)"
  by (simp add: slice_view_default_ctor_def sv_inv_def cell_ok_def maybe_present_t_def)

lemma sv_inv_begin: "sv_inv sv \<Longrightarrow> sv_inv (fst (snd (begin_sv (sv, src))))"
  by (simp add: sv_inv_def next_sv_cell_ok begin_sv_next del: begin_sv.simps)

lemma sv_inv_end: "sv_inv sv \<Longrightarrow> sv_inv (fst (snd (end_sv (sv, src))))"
  by (simp add: sv_inv_def next_sv_cell_ok end_sv_next del: end_sv.simps)

lemma slice_view_copy_ctor_eq [simp]: "slice_view_copy_ctor sv = (sv, sv)"
  by (simp add: slice_view_copy_ctor_def)

lemma snd_slice_view_move_ctor [simp]: "snd (slice_view_move_ctor mb sv) = sv"
  by (simp add: slice_view_move_ctor_def)

lemma reachable_sv_inv: "reachable sv \<Longrightarrow> sv_inv sv"
  by (induction rule: reachable.induct)
     (simp_all add: sv_inv_ctor sv_inv_default sv_inv_begin sv_inv_end
               del: begin_sv.simps end_sv.simps)

lemma after_query_fields [simp]:
  "base' (fst (after_query q (sv, src))) = base' sv"
  "start_index' (fst (after_query q (sv, src))) = start_index' sv"
  "end_index' (fst (after_query q (sv, src))) = end_index' sv"
  by (cases q; simp del: begin_sv.simps end_sv.simps)+

lemma reachable_after_query:
  "reachable sv \<Longrightarrow> reachable (fst (after_query q (sv, src)))"
  by (cases q) (simp_all add: reachable.after_begin reachable.after_end
                         del: begin_sv.simps end_sv.simps)

lemma reachable_queries:
  "reachable (fst st) \<Longrightarrow> reachable (fst (after_queries qs st))"
proof (induction qs arbitrary: st)
  case Nil
  then show ?case by simp
next
  case (Cons q qs)
  from Cons.prems have "reachable (fst (after_query q st))"
    using reachable_after_query [of "fst st" q "snd st"] by simp
  then show ?case using Cons.IH by simp
qed

lemma after_queries_fields:
  "base' (fst (after_queries qs st)) = base' (fst st) \<and>
   start_index' (fst (after_queries qs st)) = start_index' (fst st) \<and>
   end_index' (fst (after_queries qs st)) = end_index' (fst st)"
proof (induction qs arbitrary: st)
  case Nil
  show ?case by simp
next
  case (Cons q qs)
  have "base' (fst (after_query q st)) = base' (fst st) \<and>
        start_index' (fst (after_query q st)) = start_index' (fst st) \<and>
        end_index' (fst (after_query q st)) = end_index' (fst st)"
    using after_query_fields [of q "fst st" "snd st"] by simp
  with Cons.IH [of "after_query q st"] show ?case by simp
qed

lemma reachable_begin_position:
  assumes "reachable sv" and "forward_range (base' sv)"
  shows "fst (begin_sv (sv, src)) =
         ranges_next (ranges_begin (base' sv)) (start_index' sv) (ranges_end (base' sv))"
  using reachable_sv_inv [OF assms(1)] assms(2)
  by (simp add: sv_inv_def next_sv_forward begin_sv_next del: begin_sv.simps)

lemma reachable_end_position:
  assumes "reachable sv" and "forward_range (base' sv)"
  shows "fst (end_sv (sv, src)) =
         ranges_next (ranges_begin (base' sv)) (end_index' sv) (ranges_end (base' sv))"
  using reachable_sv_inv [OF assms(1)] assms(2)
  by (simp add: sv_inv_def next_sv_forward end_sv_next del: end_sv.simps)

lemma elements_between_clamped:
  "elements_between r (min s (length (elems r))) (min e (length (elems r))) =
   take (e - s) (drop s (elems r))"
  by (cases "s < length (elems r)"; cases "e < length (elems r)")
     (simp_all add: elements_between_def min_def)

text \<open>
  Without cached iterators \<^verbatim>\<open>next\<close> never looks at the member it is given: the
  constructor leaves both members as values of the empty type, and every query computes
  the bounded advance afresh.
\<close>

lemma cacheable_range_eq: "cacheable_range r = use_cached_iterators' r"
  by (simp add: cacheable_range_def use_cached_iterators'_def)

lemma slice_view_ctor_cache_members:
  assumes "slice_view_ctor b s e = Inr sv"
  shows "begin' sv = (if use_cached_iterators' b then Cached_iterator None else Empty_type)"
    and "end' sv = (if use_cached_iterators' b then Cached_iterator None else Empty_type)"
  using assms by (auto simp: slice_view_ctor_def maybe_present_t_def split: if_splits)

lemma next_sv_without_cache:
  assumes "\<not> use_cached_iterators' (base' sv)"
  shows "next_sv sv c n src =
         (fst (ranges_next_of (base' sv)
                 (ranges_begin (base' sv)) n (ranges_end (base' sv)) src),
          c,
          snd (ranges_next_of (base' sv)
                 (ranges_begin (base' sv)) n (ranges_end (base' sv)) src))"
  using assms by (simp add: next_sv_def split: prod.split)

subsection \<open>Example views\<close>

lemma sle_numeral_simps [simp]:
  "(0::64 word) \<le>s 2" "(0::64 word) \<le>s 5" "(2::64 word) \<le>s 5"
  "(0::64 word) \<le>s 3" "(0::64 word) \<le>s 10" "(3::64 word) \<le>s 10"
  "(0::64 word) \<le>s 1" "(1::64 word) \<le>s 3"
  by (simp_all add: word_sle_eq)

lemma fresh_list_slice_ctor:
  "slice_view_ctor forward_list_example 2 5 = Inr fresh_list_slice"
  by (simp add: slice_view_ctor_def fresh_list_slice_def forward_list_example_def
        use_cached_iterators'_def maybe_present_t_def)

lemma queried_list_slice_queries:
  "snd (end_sv (snd (begin_sv (fresh_list_slice, src)))) = (queried_list_slice, src)"
  by (simp add: fresh_list_slice_def queried_list_slice_def next_sv_def
        forward_list_example_def use_cached_iterators'_def ranges_next_of_def
        ranges_next_from_begin)

lemma clamped_array_slice_ctor:
  "slice_view_ctor array_example 3 10 = Inr clamped_array_slice"
  by (simp add: slice_view_ctor_def clamped_array_slice_def array_example_def
        use_cached_iterators'_def maybe_present_t_def)

lemma stream_slice_ctor:
  "slice_view_ctor stream_example 1 3 = Inr stream_slice"
  by (simp add: slice_view_ctor_def stream_slice_def stream_example_def
        use_cached_iterators'_def maybe_present_t_def)

lemma stream_slice_begin:
  "begin_sv (stream_slice, 1) = (1, stream_slice, 2)"
  "begin_sv (stream_slice, 2) = (2, stream_slice, 3)"
  "begin_sv (stream_slice, 3) = (3, stream_slice, 4)"
  by (simp_all add: stream_slice_def stream_example_def next_sv_def
        use_cached_iterators'_def ranges_next_of_def ranges_begin_def ranges_end_def
        stream_increment_def)

lemma stream_slice_end:
  "end_sv (stream_slice, 1) = (3, stream_slice, 4)"
  "end_sv (stream_slice, 2) = (4, stream_slice, 5)"
  by (simp_all add: stream_slice_def stream_example_def next_sv_def
        use_cached_iterators'_def ranges_next_of_def ranges_begin_def ranges_end_def
        stream_increment_def eval_nat_numeral)

subsection \<open>The endpoint queries\<close>

text \<open>
  Claim C4, as stated, speaks of every slice view. Over a single-pass base each query
  advances a copy of the stored begin iterator, and every step reads on in the shared
  stream. On the stream example sliced at \<open>[1, 3)\<close> the first \<^verbatim>\<open>begin\<close> returns
  position 1, but a second \<^verbatim>\<open>begin\<close> returns position 2 and the \<^verbatim>\<open>end\<close> after a
  \<^verbatim>\<open>begin\<close> returns position 4: further from the start than the requested 1 and 3
  steps.
\<close>

theorem single_pass_queries_overshoot:
  "slice_view_ctor stream_example 1 3 = Inr stream_slice \<and>
   fst (begin_sv (stream_slice, 1)) = 1 \<and>
   fst (begin_sv (snd (begin_sv (stream_slice, 1)))) = 2 \<and>
   \<not> fst (begin_sv (snd (begin_sv (stream_slice, 1)))) \<le>
       ranges_begin stream_example + nat (sint (start_index' stream_slice)) \<and>
   fst (end_sv (snd (begin_sv (stream_slice, 1)))) = 4 \<and>
   \<not> fst (end_sv (snd (begin_sv (stream_slice, 1)))) \<le>
       ranges_begin stream_example + nat (sint (end_index' stream_slice))"
proof -
  have f: "start_index' stream_slice = 1" "end_index' stream_slice = 3"
    by (simp_all add: stream_slice_def)
  show ?thesis
    unfolding stream_slice_begin(1) stream_slice_begin(2) stream_slice_end(2)
              snd_conv fst_conv f
    by (simp add: stream_slice_ctor ranges_begin_def)
qed

text \<open>
  Claim C4, amended: on every view over a forward base that a program can hold,
  \<^verbatim>\<open>begin\<close> and \<^verbatim>\<open>end\<close> return the base's start advanced by the requested index
  but not past the base's end, that is the position \<open>min n L\<close>. No query has an error
  result; with an index beyond the length the position is the base's end. The two
  positions are ordered and inside the base, and the elements between them are the
  base's elements from \<open>start\<close> up to \<open>end\<close>, as many as exist (possibly none).
\<close>

theorem endpoint_queries_bounded_advance:
  assumes "reachable sv" and "forward_range (base' sv)"
  shows "fst (begin_sv (sv, src)) =
           ranges_next (ranges_begin (base' sv)) (start_index' sv) (ranges_end (base' sv)) \<and>
         fst (begin_sv (sv, src)) =
           min (nat (sint (start_index' sv))) (length (elems (base' sv))) \<and>
         fst (end_sv (sv, src)) =
           ranges_next (ranges_begin (base' sv)) (end_index' sv) (ranges_end (base' sv)) \<and>
         fst (end_sv (sv, src)) =
           min (nat (sint (end_index' sv))) (length (elems (base' sv))) \<and>
         fst (begin_sv (sv, src)) \<le> fst (end_sv (sv, src)) \<and>
         fst (end_sv (sv, src)) \<le> ranges_end (base' sv) \<and>
         elements_between (base' sv) (fst (begin_sv (sv, src))) (fst (end_sv (sv, src))) =
           take (nat (sint (end_index' sv)) - nat (sint (start_index' sv)))
             (drop (nat (sint (start_index' sv))) (elems (base' sv)))"
proof -
  have inv: "sv_inv sv" by (rule reachable_sv_inv [OF assms(1)])
  then have ord: "nat (sint (start_index' sv)) \<le> nat (sint (end_index' sv))"
    by (auto simp: sv_inv_def word_sle_eq)
  have b: "fst (begin_sv (sv, src)) =
      ranges_next (ranges_begin (base' sv)) (start_index' sv) (ranges_end (base' sv))"
    by (rule reachable_begin_position [OF assms])
  have e: "fst (end_sv (sv, src)) =
      ranges_next (ranges_begin (base' sv)) (end_index' sv) (ranges_end (base' sv))"
    by (rule reachable_end_position [OF assms])
  have b': "fst (begin_sv (sv, src)) =
      min (nat (sint (start_index' sv))) (length (elems (base' sv)))"
    unfolding b by (rule ranges_next_from_begin)
  have e': "fst (end_sv (sv, src)) =
      min (nat (sint (end_index' sv))) (length (elems (base' sv)))"
    unfolding e by (rule ranges_next_from_begin)
  have le: "fst (begin_sv (sv, src)) \<le> fst (end_sv (sv, src))"
    unfolding b' e' using ord by simp
  have bound: "fst (end_sv (sv, src)) \<le> ranges_end (base' sv)"
    unfolding e' by (simp add: ranges_end_def)
  have els: "elements_between (base' sv) (fst (begin_sv (sv, src))) (fst (end_sv (sv, src))) =
           take (nat (sint (end_index' sv)) - nat (sint (start_index' sv)))
             (drop (nat (sint (start_index' sv))) (elems (base' sv)))"
    unfolding b' e' by (rule elements_between_clamped)
  from b b' e e' le bound els show ?thesis by blast
qed

theorem endpoint_queries_bounded_advance_witness:
  "reachable clamped_array_slice \<and>
   forward_range (base' clamped_array_slice) \<and>
   fst (begin_sv (clamped_array_slice, 0)) = 3 \<and>
   fst (end_sv (clamped_array_slice, 0)) = 5 \<and>
   elements_between array_example
     (fst (begin_sv (clamped_array_slice, 0))) (fst (end_sv (clamped_array_slice, 0))) =
     [13, 14]"
proof -
  have r: "reachable clamped_array_slice"
    by (rule reachable.constructed [OF clamped_array_slice_ctor])
  have f: "base' clamped_array_slice = array_example"
    "start_index' clamped_array_slice = 3" "end_index' clamped_array_slice = 10"
    by (simp_all add: clamped_array_slice_def)
  have l: "elems array_example = [10, 11, 12, 13, 14]"
    by (simp add: array_example_def)
  have fw: "forward_range (base' clamped_array_slice)"
    by (simp add: clamped_array_slice_def array_example_def)
  note t = endpoint_queries_bounded_advance [OF r fw, of 0, unfolded f l]
  have b: "fst (begin_sv (clamped_array_slice, 0)) = 3"
    using t [THEN conjunct2, THEN conjunct1] by simp
  have e: "fst (end_sv (clamped_array_slice, 0)) = 5"
    using t [THEN conjunct2, THEN conjunct2, THEN conjunct2, THEN conjunct1] by simp
  have "elements_between array_example
     (fst (begin_sv (clamped_array_slice, 0))) (fst (end_sv (clamped_array_slice, 0))) =
     [13, 14]"
    using t [THEN conjunct2, THEN conjunct2, THEN conjunct2, THEN conjunct2,
             THEN conjunct2, THEN conjunct2]
    by simp
  with r fw b e show ?thesis by simp
qed

text \<open>
  Claim C8, as stated, speaks of every slice view over an unmutated base. Over a
  single-pass base the query itself reads from the shared stream, and nothing is cached:
  on the stream example sliced at \<open>[1, 3)\<close>, three \<^verbatim>\<open>begin\<close> calls in a row return
  the positions 1, 2 and 3, which denote 20, 30 and 40.
\<close>

theorem single_pass_begin_not_repeatable:
  "slice_view_ctor stream_example 1 3 = Inr stream_slice \<and>
   fst (begin_sv (stream_slice, 1)) = 1 \<and>
   fst (begin_sv (snd (begin_sv (stream_slice, 1)))) = 2 \<and>
   fst (begin_sv (snd (begin_sv (snd (begin_sv (stream_slice, 1)))))) = 3 \<and>
   fst (snd (begin_sv (stream_slice, 1))) = stream_slice \<and>
   elems (base' stream_slice) ! 1 = 20 \<and>
   elems (base' stream_slice) ! 2 = 30 \<and>
   elems (base' stream_slice) ! 3 = 40 \<and>
   fst (begin_sv (snd (begin_sv (stream_slice, 1)))) \<noteq> fst (begin_sv (stream_slice, 1))"
proof -
  have f: "elems (base' stream_slice) = [10, 20, 30, 40, 50]"
    by (simp add: stream_slice_def stream_example_def)
  show ?thesis
    unfolding stream_slice_begin snd_conv fst_conv f
    by (simp add: stream_slice_ctor)
qed

text \<open>
  Claim C8, amended: on every view over a forward base that a program can hold, after
  any sequence of endpoint queries \<^verbatim>\<open>begin\<close> returns the position it returned at
  first, and so does \<^verbatim>\<open>end\<close>; a query repeated at once returns the same position and
  leaves the view as it is. Where iterators are cached, a query leaves the returned
  position in its cache member, and populating the member again from empty stores that
  same position.
\<close>

theorem endpoint_queries_idempotent:
  assumes "reachable sv" and "forward_range (base' sv)"
  shows "fst (begin_sv (after_queries qs (sv, src))) = fst (begin_sv (sv, src)) \<and>
         fst (end_sv (after_queries qs (sv, src))) = fst (end_sv (sv, src)) \<and>
         begin_sv (snd (begin_sv (sv, src))) =
           (fst (begin_sv (sv, src)), snd (begin_sv (sv, src))) \<and>
         end_sv (snd (end_sv (sv, src))) =
           (fst (end_sv (sv, src)), snd (end_sv (sv, src))) \<and>
         (use_cached_iterators' (base' sv) \<longrightarrow>
            begin' (fst (snd (begin_sv (sv, src)))) =
              Cached_iterator (Some (fst (begin_sv (sv, src)))) \<and>
            begin' (fst (snd (begin_sv
                ((fst (snd (begin_sv (sv, src))))\<lparr>begin' := Cached_iterator None\<rparr>, src)))) =
              begin' (fst (snd (begin_sv (sv, src)))) \<and>
            end' (fst (snd (end_sv (sv, src)))) =
              Cached_iterator (Some (fst (end_sv (sv, src)))) \<and>
            end' (fst (snd (end_sv
                ((fst (snd (end_sv (sv, src))))\<lparr>end' := Cached_iterator None\<rparr>, src)))) =
              end' (fst (snd (end_sv (sv, src)))))"
proof -
  obtain sv' src' where a: "after_queries qs (sv, src) = (sv', src')"
    by (cases "after_queries qs (sv, src)")
  have r: "reachable sv'"
    using reachable_queries [of "(sv, src)" qs] assms(1) by (simp add: a)
  have f: "base' sv' = base' sv" "start_index' sv' = start_index' sv"
    "end_index' sv' = end_index' sv"
    using after_queries_fields [of qs "(sv, src)"] by (simp_all add: a)
  have fw': "forward_range (base' sv')" using assms(2) by (simp add: f)
  have inv: "sv_inv sv" by (rule reachable_sv_inv [OF assms(1)])
  have fw: "forward_range (base' sv)" by (rule assms(2))
  have 1: "fst (begin_sv (after_queries qs (sv, src))) = fst (begin_sv (sv, src))"
    unfolding a reachable_begin_position [OF r fw'] reachable_begin_position [OF assms]
    by (simp add: f)
  have 2: "fst (end_sv (after_queries qs (sv, src))) = fst (end_sv (sv, src))"
    unfolding a reachable_end_position [OF r fw'] reachable_end_position [OF assms]
    by (simp add: f)
  have 3: "begin_sv (snd (begin_sv (sv, src))) =
           (fst (begin_sv (sv, src)), snd (begin_sv (sv, src)))"
    using inv fw
    by (auto simp: next_sv_def sv_inv_def cell_ok_def ranges_next_of_forward
             split: cache_field.splits option.splits)
  have 4: "end_sv (snd (end_sv (sv, src))) =
           (fst (end_sv (sv, src)), snd (end_sv (sv, src)))"
    using inv fw
    by (auto simp: next_sv_def sv_inv_def cell_ok_def ranges_next_of_forward
             split: cache_field.splits option.splits)
  have 5: "use_cached_iterators' (base' sv) \<longrightarrow>
            begin' (fst (snd (begin_sv (sv, src)))) =
              Cached_iterator (Some (fst (begin_sv (sv, src)))) \<and>
            begin' (fst (snd (begin_sv
                ((fst (snd (begin_sv (sv, src))))\<lparr>begin' := Cached_iterator None\<rparr>, src)))) =
              begin' (fst (snd (begin_sv (sv, src))))"
    using inv fw
    by (auto simp: next_sv_def sv_inv_def cell_ok_def ranges_next_of_forward
             split: cache_field.splits option.splits)
  have 6: "use_cached_iterators' (base' sv) \<longrightarrow>
            end' (fst (snd (end_sv (sv, src)))) =
              Cached_iterator (Some (fst (end_sv (sv, src)))) \<and>
            end' (fst (snd (end_sv
                ((fst (snd (end_sv (sv, src))))\<lparr>end' := Cached_iterator None\<rparr>, src)))) =
              end' (fst (snd (end_sv (sv, src))))"
    using inv fw
    by (auto simp: next_sv_def sv_inv_def cell_ok_def ranges_next_of_forward
             split: cache_field.splits option.splits)
  from 1 2 3 4 5 6 show ?thesis by blast
qed

theorem endpoint_queries_idempotent_witness:
  "reachable fresh_list_slice \<and>
   forward_range (base' fresh_list_slice) \<and>
   use_cached_iterators' (base' fresh_list_slice) \<and>
   fst (begin_sv (fresh_list_slice, 0)) = 2 \<and>
   fst (begin_sv (after_queries [Begin_query, End_query, Begin_query]
                    (fresh_list_slice, 0))) = 2 \<and>
   begin_sv (snd (begin_sv (fresh_list_slice, 0))) = (2, snd (begin_sv (fresh_list_slice, 0))) \<and>
   begin' (fst (snd (begin_sv
      ((fst (snd (begin_sv (fresh_list_slice, 0))))\<lparr>begin' := Cached_iterator None\<rparr>, 0)))) =
     Cached_iterator (Some 2)"
proof -
  have r: "reachable fresh_list_slice"
    by (rule reachable.constructed [OF fresh_list_slice_ctor])
  have fw: "forward_range (base' fresh_list_slice)"
    by (simp add: fresh_list_slice_def forward_list_example_def)
  have c: "use_cached_iterators' (base' fresh_list_slice)"
    by (simp add: fresh_list_slice_def forward_list_example_def use_cached_iterators'_def)
  have b: "fst (begin_sv (fresh_list_slice, 0)) = 2"
    unfolding reachable_begin_position [OF r fw] ranges_next_from_begin
    by (simp add: fresh_list_slice_def forward_list_example_def)
  note t = endpoint_queries_idempotent
             [OF r fw, of "[Begin_query, End_query, Begin_query]" 0, unfolded b]
  from t c r fw b show ?thesis by (simp del: begin_sv.simps end_sv.simps after_queries.simps)
qed

subsection \<open>Copying and moving a view\<close>

text \<open>
  Claim C1 says that copying a view with populated cache members gives a copy with empty
  ones. The view's cache members are \<^verbatim>\<open>std::optional\<close> objects, not the
  non-propagating cache of include/dd/cached\_iterator.hpp, and the implicit copy
  constructor copies them with their contents. At the list example, queried at both ends
  and then copied, the copy's cache members hold the positions 2 and 5. (A list has no
  stream behind it; the stream state 0 is carried through the queries unchanged.)
\<close>

theorem slice_view_copy_keeps_cache:
  "slice_view_ctor forward_list_example 2 5 = Inr fresh_list_slice \<and>
   snd (end_sv (snd (begin_sv (fresh_list_slice, 0)))) = (queried_list_slice, 0) \<and>
   begin' queried_list_slice = Cached_iterator (Some 2) \<and>
   end' queried_list_slice = Cached_iterator (Some 5) \<and>
   begin' (snd (slice_view_copy_ctor queried_list_slice)) = Cached_iterator (Some 2) \<and>
   end' (snd (slice_view_copy_ctor queried_list_slice)) = Cached_iterator (Some 5)"
  by (simp add: fresh_list_slice_ctor queried_list_slice_queries
           del: begin_sv.simps end_sv.simps)
     (simp add: queried_list_slice_def)

text \<open>
  Claim C2 says that moving a view with populated cache members leaves both the target's
  and the source's cache members empty. The implicit move constructor moves the
  \<^verbatim>\<open>std::optional\<close> members: the target receives the cached positions and the
  source stays engaged. At the list example (a reference view, which a move leaves as it
  is) both views hold the positions 2 and 5 after the move.
\<close>

theorem slice_view_move_keeps_cache:
  "begin' queried_list_slice = Cached_iterator (Some 2) \<and>
   end' queried_list_slice = Cached_iterator (Some 5) \<and>
   begin' (snd (slice_view_move_ctor forward_list_example queried_list_slice)) =
     Cached_iterator (Some 2) \<and>
   end' (snd (slice_view_move_ctor forward_list_example queried_list_slice)) =
     Cached_iterator (Some 5) \<and>
   begin' (fst (slice_view_move_ctor forward_list_example queried_list_slice)) =
     Cached_iterator (Some 2) \<and>
   end' (fst (slice_view_move_ctor forward_list_example queried_list_slice)) =
     Cached_iterator (Some 5)"
  by (simp add: slice_view_move_ctor_def queried_list_slice_def)

end
